theory Spec2Isabelle
  imports Main "HOL-Library.Word"
begin

section \<open>The windowed file buffer of fileop.c\<close>

text \<open>
  The model covers \<^verbatim>\<open>fbuf_t\<close> and the functions \<^verbatim>\<open>fbuf_init\<close>, \<^verbatim>\<open>fbuf_mmap\<close>,
  \<^verbatim>\<open>fbuf_at\<close>, \<^verbatim>\<open>fbuf_ptr\<close>, \<^verbatim>\<open>fbuf_read\<close> and the seven scanners
  (fileop.c, lines 1051 to 1444), for the UNIX build. C integers are modelled as \<open>int\<close>;
  where the code stores a wider value in a 32-bit \<^verbatim>\<open>int\<close> the narrowing is written out
  with \<open>int32\<close>. All functions are modelled on a non-null handle: the guard
  \<^verbatim>\<open>if (!fbf) return ...\<close> that opens each of them is the only part left out.
\<close>

subsection \<open>The operating system\<close>

type_synonym byte = "8 word"

text \<open>
  What \<^verbatim>\<open>pbyte\<close> can hold: \<^verbatim>\<open>NULL\<close>, \<^verbatim>\<open>MAP_FAILED\<close>, the start of a live mapping
  (with the bytes it shows), or another address that is not mapped.
\<close>

datatype ptr = NULL | MAP_FAILED | Mapped "byte list" | Wild

text \<open>
  The system state: the bytes of the file behind the descriptor, whether the system
  has the means to grant each future \<^verbatim>\<open>mmap\<close> call (by call number), and three
  observation fields that the code
  cannot read: the number of \<^verbatim>\<open>mmap\<close> and \<^verbatim>\<open>munmap\<close> calls made so far and the file
  positions whose byte has been fetched through the window, latest first.
\<close>

record sys =
  file_bytes :: "byte list"
  mmap_ok :: "nat \<Rightarrow> bool"
  mmap_calls :: nat
  munmap_calls :: nat
  examined :: "int list"

text \<open>
  A descriptor is represented by the access mode it was opened with; the protections and
  the sharing flag are those of \<^verbatim>\<open>mmap\<close>.
\<close>

datatype open_flag = O_RDONLY | O_WRONLY | O_RDWR

datatype prot = PROT_READ | PROT_WRITE

datatype map_flag = MAP_SHARED | MAP_PRIVATE

text \<open>
  The access check of \<^verbatim>\<open>mmap\<close> (error \<^verbatim>\<open>EACCES\<close>): a file mapping needs a descriptor
  open for reading, and a shared mapping with write protection needs a descriptor opened
  \<^verbatim>\<open>O_RDWR\<close>.
\<close>

definition mmap_denied :: "prot list \<Rightarrow> map_flag \<Rightarrow> open_flag \<Rightarrow> bool" where
  "mmap_denied prots flag fd =
     (fd = O_WRONLY \<or> (flag = MAP_SHARED \<and> PROT_WRITE \<in> set prots \<and> fd \<noteq> O_RDWR))"

text \<open>
  \<^verbatim>\<open>mmap(addr, len, prot, flags, fd, off)\<close>: fails when the access check denies it, when
  the system says so and when the length is not positive; otherwise the mapping shows
  \<open>len\<close> bytes of the file from \<open>off\<close> (fewer when the file ends before).
\<close>

definition sys_mmap ::
  "int \<Rightarrow> prot list \<Rightarrow> map_flag \<Rightarrow> open_flag \<Rightarrow> int \<Rightarrow> sys \<Rightarrow> ptr \<times> sys" where
  "sys_mmap len prots flag fd off s =
     ((if \<not> mmap_denied prots flag fd \<and> mmap_ok s (mmap_calls s) \<and> 0 < len \<and> 0 \<le> off
       then Mapped (take (nat len) (drop (nat off) (file_bytes s)))
       else MAP_FAILED),
      s\<lparr>mmap_calls := Suc (mmap_calls s)\<rparr>)"

definition sys_munmap :: "sys \<Rightarrow> sys" where
  "sys_munmap s = s\<lparr>munmap_calls := Suc (munmap_calls s)\<rparr>"

subsection \<open>Integers of C\<close>

text \<open>Division of C truncates towards zero.\<close>

definition c_div :: "int \<Rightarrow> int \<Rightarrow> int" where
  "c_div a b = sgn a * sgn b * (\<bar>a\<bar> div \<bar>b\<bar>)"

text \<open>Narrowing to a 32-bit \<^verbatim>\<open>int\<close> (two's complement).\<close>

definition int32 :: "int \<Rightarrow> int" where
  "int32 x = (x + 2147483648) mod 4294967296 - 2147483648"

subsection \<open>The buffer\<close>

text \<open>\<^verbatim>\<open>fbuf_t\<close> without the file name.\<close>

record fbuf =
  fd :: open_flag
  fsize :: int
  pagecount :: int
  pagesize :: int
  mapsize :: int
  mapoff :: int
  maplen :: int
  pbyte :: ptr

type_synonym state = "fbuf \<times> sys"

text \<open>
  \<^verbatim>\<open>fbuf_init\<close>: \<open>open_ok\<close> and \<open>alloc_ok\<close> say whether \<^verbatim>\<open>open\<close> and \<^verbatim>\<open>kzalloc\<close>
  succeed, \<open>sc_page_size\<close> is what \<^verbatim>\<open>sysconf(_SC_PAGE_SIZE)\<close> returns. \<open>None\<close> is the
  \<^verbatim>\<open>NULL\<close> result. The file is opened with \<^verbatim>\<open>open(fname, O_RDONLY)\<close>.
\<close>

definition fbuf_init :: "bool \<Rightarrow> bool \<Rightarrow> int \<Rightarrow> int \<Rightarrow> sys \<Rightarrow> fbuf option" where
  "fbuf_init open_ok alloc_ok sc_page_size pagecnt s =
     (if \<not> open_ok then None
      else if \<not> alloc_ok then None
      else
        let pc = (if pagecnt < 8 then 8 else pagecnt);
            ps0 = int32 sc_page_size;
            ps = (if ps0 < 512 then 4096 else ps0)
        in Some \<lparr>fd = O_RDONLY, fsize = int (length (file_bytes s)), pagecount = pc,
                 pagesize = ps,
                 mapsize = int32 (ps * pc), mapoff = 0, maplen = 0, pbyte = NULL\<rparr>)"

text \<open>
  \<^verbatim>\<open>fbuf_mmap\<close>. The result is \<open>None\<close> when the process traps (division by a zero
  page size), otherwise the returned \<^verbatim>\<open>int\<close>. The mapping call is
  \<^verbatim>\<open>mmap(fbf->pbyte, fbf->maplen, PROT_READ | PROT_WRITE, MAP_SHARED, fbf->fd, fbf->mapoff)\<close>.
\<close>

definition fbuf_mmap :: "int \<Rightarrow> state \<Rightarrow> int option \<times> state" where
  "fbuf_mmap pos st =
     (let fbf = fst st; s = snd st in
      if pos < 0 \<or> pos \<ge> fsize fbf then (Some (- 2), st)
      else if pos < mapoff fbf \<or> pos \<ge> mapoff fbf + maplen fbf then
        (let s1 = (if pbyte fbf \<noteq> NULL then sys_munmap s else s) in
         if pagesize fbf = 0 then (None, (fbf, s1))
         else
           let off = c_div pos (pagesize fbf) * pagesize fbf;
               len0 = fsize fbf - off;
               len = (if len0 > mapsize fbf then mapsize fbf else len0);
               r = sys_mmap len [PROT_READ, PROT_WRITE] MAP_SHARED (fd fbf) off s1;
               fbf' = fbf\<lparr>mapoff := off, maplen := len, pbyte := fst r\<rparr>
           in if fst r = MAP_FAILED then (Some (- 3), (fbf', snd r))
              else (Some 0, (fbf', snd r)))
      else (Some 0, st))"

text \<open>
  Reading \<^verbatim>\<open>p[k]\<close>: a byte of a live mapping, or a memory fault (\<open>None\<close>).
\<close>

definition deref :: "ptr \<Rightarrow> int \<Rightarrow> byte option" where
  "deref p k =
     (case p of
        Mapped bs \<Rightarrow> if 0 \<le> k \<and> k < int (length bs) then Some (bs ! nat k) else None
      | _ \<Rightarrow> None)"

text \<open>\<^verbatim>\<open>fbuf_at\<close>; \<open>None\<close> when the process traps or faults.\<close>

definition fbuf_at :: "int \<Rightarrow> state \<Rightarrow> int option \<times> state" where
  "fbuf_at pos st =
     (case fbuf_mmap pos st of
        (None, st') \<Rightarrow> (None, st')
      | (Some r, st') \<Rightarrow>
          if r < 0 then (Some (- 2), st')
          else
            (case deref (pbyte (fst st')) (pos - mapoff (fst st')) of
               None \<Rightarrow> (None, st')
             | Some b \<Rightarrow>
                 (Some (uint b), (fst st', (snd st')\<lparr>examined := pos # examined (snd st')\<rparr>))))"

text \<open>Pointer arithmetic \<^verbatim>\<open>p + k\<close>.\<close>

definition ptr_add :: "ptr \<Rightarrow> int \<Rightarrow> ptr" where
  "ptr_add p k =
     (if k = 0 then p
      else case p of
        Mapped bs \<Rightarrow> if 0 \<le> k \<and> k \<le> int (length bs) then Mapped (drop (nat k) bs) else Wild
      | _ \<Rightarrow> Wild)"

text \<open>
  \<^verbatim>\<open>fbuf_ptr\<close>, with both out-parameters given: the result is the returned pointer
  (\<open>NULL\<close> on failure), the pointer stored in \<^verbatim>\<open>*ppbuf\<close> and the length stored in
  \<^verbatim>\<open>*plen\<close> (both \<open>None\<close> when nothing is stored).
\<close>

definition fbuf_ptr :: "int \<Rightarrow> state \<Rightarrow> (ptr \<times> (ptr \<times> int) option) option \<times> state" where
  "fbuf_ptr pos st =
     (case fbuf_mmap pos st of
        (None, st') \<Rightarrow> (None, st')
      | (Some r, st') \<Rightarrow>
          if r < 0 then (Some (NULL, None), st')
          else
            let fbf = fst st';
                p = ptr_add (pbyte fbf) (pos - mapoff fbf)
            in (Some (p, Some (p, int32 (maplen fbf - (pos - mapoff fbf)))), st'))"

text \<open>
  \<^verbatim>\<open>memcpy(dst, p, n)\<close> seen from the source side: the \<open>n\<close> bytes copied, or a fault.
\<close>

definition copy_from :: "ptr \<Rightarrow> int \<Rightarrow> byte list option" where
  "copy_from p n =
     (if n = 0 then Some []
      else case p of
        Mapped bs \<Rightarrow> if 0 \<le> n \<and> n \<le> int (length bs) then Some (take (nat n) bs) else None
      | _ \<Rightarrow> None)"

text \<open>
  \<^verbatim>\<open>fbuf_read\<close>: \<open>pbuf\<close> is the destination buffer as the caller passes it, \<open>None\<close>
  for a null pointer. The result is the returned \<^verbatim>\<open>int\<close> with the bytes written to
  the destination.
\<close>

definition fbuf_read ::
  "int \<Rightarrow> byte list option \<Rightarrow> int \<Rightarrow> state \<Rightarrow> (int \<times> byte list) option \<times> state" where
  "fbuf_read pos pbuf len st =
     (if pbuf = None \<or> len \<le> 0 then (Some (- 1, []), st)
      else
        case fbuf_mmap pos st of
          (None, st') \<Rightarrow> (None, st')
        | (Some r, st') \<Rightarrow>
            if r < 0 then (Some (- 2, []), st')
            else
              let fbf = fst st';
                  alen = int32 (maplen fbf - (pos - mapoff fbf));
                  len' = (if len > alen then alen else len)
              in case copy_from (ptr_add (pbyte fbf) (pos - mapoff fbf)) len' of
                   None \<Rightarrow> (None, st')
                 | Some bs \<Rightarrow> (Some (len', bs), st'))"


section \<open>The scanners\<close>

text \<open>
  The delimiter set is the buffer \<^verbatim>\<open>vpat\<close> (\<open>None\<close> when null) with its length
  \<^verbatim>\<open>patlen\<close>. The inner loop \<^verbatim>\<open>for (j = 0; j < patlen; j++) if (pat[j] == fch)\<close>
  finds out whether one of the first \<open>patlen\<close> bytes of the buffer equals \<open>fch\<close>.
\<close>

definition pat_has :: "byte list \<Rightarrow> int \<Rightarrow> int \<Rightarrow> bool" where
  "pat_has pat patlen fch = list_ex (\<lambda>b. uint b = fch) (take (nat patlen) pat)"

text \<open>
  The bound every forward scanner computes first:
  \<^verbatim>\<open>fsize = fbf->fsize - pos; if (skiplimit >= 0 && skiplimit < fsize) fsize = skiplimit;\<close>
\<close>

definition scan_bound :: "fbuf \<Rightarrow> int \<Rightarrow> int \<Rightarrow> int" where
  "scan_bound fbf pos skiplimit =
     (let n = fsize fbf - pos in if skiplimit \<ge> 0 \<and> skiplimit < n then skiplimit else n)"

subsection \<open>\<^verbatim>\<open>fbuf_skip_to\<close>\<close>

function skip_to_loop ::
  "byte list \<Rightarrow> int \<Rightarrow> int \<Rightarrow> int \<Rightarrow> int \<Rightarrow> state \<Rightarrow> int option \<times> state" where
  "skip_to_loop pat patlen pos n i st =
     (if i < n then
        (case fbuf_at (pos + i) st of
           (None, st') \<Rightarrow> (None, st')
         | (Some fch, st') \<Rightarrow>
             if fch < 0 then (Some (pos + i), st')
             else if pat_has pat patlen fch then (Some (pos + i), st')
             else skip_to_loop pat patlen pos n (i + 1) st')
      else (Some (pos + i), st))"
  by pat_completeness auto
termination
  by (relation "measure (\<lambda>(pat, patlen, pos, n, i, st). nat (n - i))") auto

declare skip_to_loop.simps [simp del]

definition fbuf_skip_to ::
  "int \<Rightarrow> int \<Rightarrow> byte list option \<Rightarrow> int \<Rightarrow> state \<Rightarrow> int option \<times> state" where
  "fbuf_skip_to pos skiplimit vpat patlen st =
     (case vpat of
        None \<Rightarrow> (Some pos, st)
      | Some pat \<Rightarrow>
          if patlen \<le> 0 then (Some pos, st)
          else skip_to_loop pat patlen pos (scan_bound (fst st) pos skiplimit) 0 st)"

subsection \<open>\<^verbatim>\<open>fbuf_rskip_to\<close>\<close>

function rskip_to_loop ::
  "byte list \<Rightarrow> int \<Rightarrow> int \<Rightarrow> int \<Rightarrow> int \<Rightarrow> state \<Rightarrow> int option \<times> state" where
  "rskip_to_loop pat patlen skiplimit pos i st =
     (if i \<le> pos then
        (if skiplimit \<ge> 0 \<and> i \<ge> skiplimit then (Some (pos - i), st)
         else
           case fbuf_at (pos - i) st of
             (None, st') \<Rightarrow> (None, st')
           | (Some fch, st') \<Rightarrow>
               if fch < 0 then (Some (pos - i), st')
               else if pat_has pat patlen fch then (Some (pos - i), st')
               else rskip_to_loop pat patlen skiplimit pos (i + 1) st')
      else (Some (pos - i), st))"
  by pat_completeness auto
termination
  by (relation "measure (\<lambda>(pat, patlen, skiplimit, pos, i, st). nat (pos + 1 - i))") auto

declare rskip_to_loop.simps [simp del]

definition fbuf_rskip_to ::
  "int \<Rightarrow> int \<Rightarrow> byte list option \<Rightarrow> int \<Rightarrow> state \<Rightarrow> int option \<times> state" where
  "fbuf_rskip_to pos skiplimit vpat patlen st =
     (case vpat of
        None \<Rightarrow> (Some pos, st)
      | Some pat \<Rightarrow>
          if patlen \<le> 0 then (Some pos, st)
          else if pos < 0 then (Some 0, st)
          else
            let pos' = (if pos \<ge> fsize (fst st) then fsize (fst st) - 1 else pos)
            in rskip_to_loop pat patlen skiplimit pos' 0 st)"

subsection \<open>\<^verbatim>\<open>fbuf_skip_over\<close>\<close>

function skip_over_loop ::
  "byte list \<Rightarrow> int \<Rightarrow> int \<Rightarrow> int \<Rightarrow> int \<Rightarrow> state \<Rightarrow> int option \<times> state" where
  "skip_over_loop pat patlen pos n i st =
     (if i < n then
        (case fbuf_at (pos + i) st of
           (None, st') \<Rightarrow> (None, st')
         | (Some fch, st') \<Rightarrow>
             if fch < 0 then (Some (pos + i), st')
             else if \<not> pat_has pat patlen fch then (Some (pos + i), st')
             else skip_over_loop pat patlen pos n (i + 1) st')
      else (Some (pos + i), st))"
  by pat_completeness auto
termination
  by (relation "measure (\<lambda>(pat, patlen, pos, n, i, st). nat (n - i))") auto

declare skip_over_loop.simps [simp del]

definition fbuf_skip_over ::
  "int \<Rightarrow> int \<Rightarrow> byte list option \<Rightarrow> int \<Rightarrow> state \<Rightarrow> int option \<times> state" where
  "fbuf_skip_over pos skiplimit vpat patlen st =
     (case vpat of
        None \<Rightarrow> (Some pos, st)
      | Some pat \<Rightarrow>
          if patlen \<le> 0 then (Some pos, st)
          else skip_over_loop pat patlen pos (scan_bound (fst st) pos skiplimit) 0 st)"

subsection \<open>\<^verbatim>\<open>fbuf_rskip_over\<close>\<close>

function rskip_over_loop ::
  "byte list \<Rightarrow> int \<Rightarrow> int \<Rightarrow> int \<Rightarrow> int \<Rightarrow> state \<Rightarrow> int option \<times> state" where
  "rskip_over_loop pat patlen skiplimit pos i st =
     (if i \<le> pos then
        (if skiplimit \<ge> 0 \<and> i \<ge> skiplimit then (Some (pos - i), st)
         else
           case fbuf_at (pos - i) st of
             (None, st') \<Rightarrow> (None, st')
           | (Some fch, st') \<Rightarrow>
               if fch < 0 then (Some (pos - i), st')
               else if \<not> pat_has pat patlen fch then (Some (pos - i), st')
               else rskip_over_loop pat patlen skiplimit pos (i + 1) st')
      else (Some (pos - i), st))"
  by pat_completeness auto
termination
  by (relation "measure (\<lambda>(pat, patlen, skiplimit, pos, i, st). nat (pos + 1 - i))") auto

declare rskip_over_loop.simps [simp del]

definition fbuf_rskip_over ::
  "int \<Rightarrow> int \<Rightarrow> byte list option \<Rightarrow> int \<Rightarrow> state \<Rightarrow> int option \<times> state" where
  "fbuf_rskip_over pos skiplimit vpat patlen st =
     (case vpat of
        None \<Rightarrow> (Some pos, st)
      | Some pat \<Rightarrow>
          if patlen \<le> 0 then (Some pos, st)
          else if pos \<le> 0 then (Some pos, st)
          else
            let pos' = (if pos \<ge> fsize (fst st) then fsize (fst st) - 1 else pos)
            in rskip_over_loop pat patlen skiplimit pos' 0 st)"

subsection \<open>\<^verbatim>\<open>fbuf_quotedstrlen\<close>\<close>

text \<open>The characters the code names: \<^verbatim>\<open>'"'\<close>, \<^verbatim>\<open>'\''\<close> and \<^verbatim>\<open>'\\'\<close>.\<close>

definition dquote :: int where "dquote = 34"
definition squote :: int where "squote = 39"
definition backslash :: int where "backslash = 92"

function quoted_loop ::
  "int \<Rightarrow> int \<Rightarrow> int \<Rightarrow> int \<Rightarrow> int \<Rightarrow> state \<Rightarrow> int option \<times> state" where
  "quoted_loop quote pos skiplimit fsz i st =
     (if i < skiplimit \<and> i < fsz - pos then
        (case fbuf_at (pos + i) st of
           (None, st') \<Rightarrow> (None, st')
         | (Some fch, st') \<Rightarrow>
             if fch < 0 then (Some i, st')
             else if fch = backslash then quoted_loop quote pos skiplimit fsz (i + 1 + 1) st'
             else if fch = quote then (Some (i + 1), st')
             else quoted_loop quote pos skiplimit fsz (i + 1) st')
      else (Some 1, st))"
  by pat_completeness auto
termination
  by (relation "measure (\<lambda>(quote, pos, skiplimit, fsz, i, st). nat (skiplimit - i))") auto

declare quoted_loop.simps [simp del]

definition fbuf_quotedstrlen :: "int \<Rightarrow> int \<Rightarrow> state \<Rightarrow> int option \<times> state" where
  "fbuf_quotedstrlen pos skiplimit st =
     (let fsz = fsize (fst st) in
      if pos \<ge> fsz then (Some 0, st)
      else
        case fbuf_at pos st of
          (None, st') \<Rightarrow> (None, st')
        | (Some quote, st') \<Rightarrow>
            if quote \<noteq> dquote \<and> quote \<noteq> squote then (Some 0, st')
            else quoted_loop quote pos skiplimit fsz 1 st')"

subsection \<open>\<^verbatim>\<open>fbuf_skip_quote_to\<close>\<close>

text \<open>
  The loop advances by the length \<^verbatim>\<open>fbuf_quotedstrlen\<close> returns, so it ends only because
  that length is at least 1 after a quote has been read at the same position. The lemmas
  below show that; the termination proof uses them.
\<close>

lemma fbuf_mmap_in_window:
  "mapoff (fst st) \<le> pos \<Longrightarrow> pos < mapoff (fst st) + maplen (fst st) \<Longrightarrow>
   fbuf_mmap pos st = (if pos < 0 \<or> pos \<ge> fsize (fst st) then Some (- 2) else Some 0, st)"
  by (simp add: fbuf_mmap_def Let_def)

lemma fbuf_mmap_window:
  assumes "fbuf_mmap pos st = (Some r, st')" "0 \<le> r"
    "deref (pbyte (fst st')) (pos - mapoff (fst st')) = Some b"
  shows "mapoff (fst st') \<le> pos \<and> pos < mapoff (fst st') + maplen (fst st')
     \<and> 0 \<le> pos \<and> pos < fsize (fst st')"
  using assms
  by (auto simp: fbuf_mmap_def Let_def sys_mmap_def deref_def split: if_splits ptr.splits)

lemma fbuf_at_again:
  assumes "fbuf_at pos st = (Some c, st')" "0 \<le> c"
  shows "\<exists>s''. fbuf_at pos st' = (Some c, (fst st', s''))"
proof -
  from assms obtain r st1 b where m: "fbuf_mmap pos st = (Some r, st1)" and r: "0 \<le> r"
    and d: "deref (pbyte (fst st1)) (pos - mapoff (fst st1)) = Some b"
    and c: "c = uint b" and st': "st' = (fst st1, (snd st1)\<lparr>examined := pos # examined (snd st1)\<rparr>)"
    by (auto simp: fbuf_at_def split: prod.splits option.splits if_splits)
  from fbuf_mmap_window [OF m r d] have w: "mapoff (fst st') \<le> pos" "pos < mapoff (fst st') + maplen (fst st')"
    "0 \<le> pos" "pos < fsize (fst st')" by (simp_all add: st')
  show ?thesis
    using w d c by (simp add: fbuf_at_def fbuf_mmap_in_window st')
qed

lemma quoted_loop_pos:
  "quoted_loop quote pos skiplimit fsz i st = (Some q, st') \<Longrightarrow> 1 \<le> i \<Longrightarrow> 1 \<le> q"
proof (induction quote pos skiplimit fsz i st rule: quoted_loop.induct)
  case (1 quote pos skiplimit fsz i st)
  show ?case
  proof (cases "i < skiplimit \<and> i < fsz - pos")
    case False
    with "1.prems" show ?thesis by (simp add: quoted_loop.simps)
  next
    case True
    with "1.prems" "1.IH" show ?thesis
      by (subst (asm) quoted_loop.simps) (auto split: prod.splits option.splits if_splits)
  qed
qed

lemma fbuf_quotedstrlen_pos:
  assumes "fbuf_at pos st0 = (Some c, st)" "c = dquote \<or> c = squote"
    "fbuf_quotedstrlen pos lim st = (Some q, st')"
  shows "1 \<le> q"
proof -
  have c0: "0 \<le> c" using assms(2) by (auto simp: dquote_def squote_def)
  from fbuf_at_again [OF assms(1) c0] obtain s'' where
    a: "fbuf_at pos st = (Some c, (fst st, s''))" by blast
  have "pos < fsize (fst st)"
    using a c0 by (auto simp: fbuf_at_def fbuf_mmap_def Let_def split: prod.splits option.splits if_splits)
  with assms(2,3) a have "quoted_loop c pos lim (fsize (fst st)) 1 (fst st, s'') = (Some q, st')"
    by (auto simp: fbuf_quotedstrlen_def Let_def)
  then show ?thesis by (rule quoted_loop_pos) simp
qed

text \<open>
  The third argument of \<^verbatim>\<open>fbuf_quotedstrlen\<close> is an \<^verbatim>\<open>int\<close>: the \<^verbatim>\<open>long\<close> value
  \<^verbatim>\<open>fsize - i\<close> is narrowed at the call.
\<close>

function skip_quote_loop ::
  "byte list \<Rightarrow> int \<Rightarrow> int \<Rightarrow> int \<Rightarrow> int \<Rightarrow> state \<Rightarrow> int option \<times> state" where
  "skip_quote_loop pat patlen pos n i st =
     (if i < n then
        (case fbuf_at (pos + i) st of
           (None, st') \<Rightarrow> (None, st')
         | (Some fch, st') \<Rightarrow>
             if fch < 0 then (Some (pos + i), st')
             else if fch = backslash \<and> i + 1 < n then skip_quote_loop pat patlen pos n (i + 2) st'
             else if pat_has pat patlen fch then (Some (pos + i), st')
             else if fch = dquote \<or> fch = squote then
               (case fbuf_quotedstrlen (pos + i) (int32 (n - i)) st' of
                  (None, st'') \<Rightarrow> (None, st'')
                | (Some qlen, st'') \<Rightarrow> skip_quote_loop pat patlen pos n (i + qlen) st'')
             else skip_quote_loop pat patlen pos n (i + 1) st')
      else (Some (pos + i), st))"
  by pat_completeness auto
termination
proof (relation "measure (\<lambda>(pat, patlen, pos, n, i, st). nat (n - i))", goal_cases)
  case 1
  show ?case by simp
next
  case (2 pat patlen pos n i st x y z)
  then show ?case by simp
next
  case (3 pat patlen pos n i st x y fch x2 y2 qlen)
  then show ?case using fbuf_quotedstrlen_pos [of "pos + i" st fch y "int32 (n - i)" qlen y2]
    by auto
next
  case 4
  then show ?case by simp
qed


declare skip_quote_loop.simps [simp del]

definition fbuf_skip_quote_to ::
  "int \<Rightarrow> int \<Rightarrow> byte list option \<Rightarrow> int \<Rightarrow> state \<Rightarrow> int option \<times> state" where
  "fbuf_skip_quote_to pos skiplimit vpat patlen st =
     (case vpat of
        None \<Rightarrow> (Some pos, st)
      | Some pat \<Rightarrow>
          if patlen \<le> 0 then (Some pos, st)
          else skip_quote_loop pat patlen pos (scan_bound (fst st) pos skiplimit) 0 st)"

subsection \<open>\<^verbatim>\<open>fbuf_skip_esc_to\<close>\<close>

text \<open>
  After a backslash the body runs \<^verbatim>\<open>i++; continue;\<close> and the loop header adds one more.
\<close>

function skip_esc_loop ::
  "byte list \<Rightarrow> int \<Rightarrow> int \<Rightarrow> int \<Rightarrow> int \<Rightarrow> state \<Rightarrow> int option \<times> state" where
  "skip_esc_loop pat patlen pos n i st =
     (if i < n then
        (case fbuf_at (pos + i) st of
           (None, st') \<Rightarrow> (None, st')
         | (Some fch, st') \<Rightarrow>
             if fch < 0 then (Some (pos + i), st')
             else if fch = backslash then skip_esc_loop pat patlen pos n (i + 1 + 1) st'
             else if pat_has pat patlen fch then (Some (pos + i), st')
             else skip_esc_loop pat patlen pos n (i + 1) st')
      else (Some (pos + i), st))"
  by pat_completeness auto
termination
  by (relation "measure (\<lambda>(pat, patlen, pos, n, i, st). nat (n - i))") auto

declare skip_esc_loop.simps [simp del]

definition fbuf_skip_esc_to ::
  "int \<Rightarrow> int \<Rightarrow> byte list option \<Rightarrow> int \<Rightarrow> state \<Rightarrow> int option \<times> state" where
  "fbuf_skip_esc_to pos skiplimit vpat patlen st =
     (case vpat of
        None \<Rightarrow> (Some pos, st)
      | Some pat \<Rightarrow>
          if patlen \<le> 0 then (Some pos, st)
          else skip_esc_loop pat patlen pos (scan_bound (fst st) pos skiplimit) 0 st)"

section \<open>Concrete buffers\<close>

text \<open>
  A system that has the means to grant every mapping call, and the buffer \<^verbatim>\<open>fbuf_init\<close>
  makes on it with a page size of 4096 and 8 pages.
\<close>

definition sys0 :: "byte list \<Rightarrow> sys" where
  "sys0 bs = \<lparr>file_bytes = bs, mmap_ok = (\<lambda>_. True), mmap_calls = 0, munmap_calls = 0,
              examined = []\<rparr>"

definition open0 :: "byte list \<Rightarrow> state" where
  "open0 bs = (the (fbuf_init True True 4096 8 (sys0 bs)), sys0 bs)"

text \<open>The same with a system that has the means to grant no mapping call.\<close>

definition sys_nomap :: "byte list \<Rightarrow> sys" where
  "sys_nomap bs = \<lparr>file_bytes = bs, mmap_ok = (\<lambda>_. False), mmap_calls = 0, munmap_calls = 0,
              examined = []\<rparr>"

definition open_nomap :: "byte list \<Rightarrow> state" where
  "open_nomap bs = (the (fbuf_init True True 4096 8 (sys_nomap bs)), sys_nomap bs)"

section \<open>Properties of the window\<close>

lemma c_div_nonneg: "0 \<le> a \<Longrightarrow> 0 < b \<Longrightarrow> c_div a b = a div b"
  by (cases "a = 0") (simp_all add: c_div_def)

text \<open>
  Claim C2. On an open buffer (its page size is positive), \<^verbatim>\<open>fbuf_mmap\<close> returns the
  out-of-range code -2 exactly when \<open>pos\<close> is outside \<open>[0, fsize)\<close>. When \<open>pos\<close> is in
  range and outside the current window, the window fields after the call are
  \<open>mapoff = floor (pos / pagesize) * pagesize\<close> and
  \<open>maplen = min mapsize (fsize - mapoff)\<close>, whether the mapping call then succeeds or not.
\<close>

theorem ensure_window_spec:
  assumes "0 < pagesize (fst st)"
  shows "(fst (fbuf_mmap pos st) = Some (- 2)) = (pos < 0 \<or> fsize (fst st) \<le> pos) \<and>
    (0 \<le> pos \<and> pos < fsize (fst st) \<and>
       (pos < mapoff (fst st) \<or> mapoff (fst st) + maplen (fst st) \<le> pos) \<longrightarrow>
     mapoff (fst (snd (fbuf_mmap pos st))) = pos div pagesize (fst st) * pagesize (fst st) \<and>
     maplen (fst (snd (fbuf_mmap pos st))) =
       min (mapsize (fst st)) (fsize (fst st) - pos div pagesize (fst st) * pagesize (fst st)))"
  using assms by (auto simp: fbuf_mmap_def Let_def c_div_nonneg)

theorem ensure_window_spec_witness:
  "0 < pagesize (fst (open0 (replicate 6000 0))) \<and>
   fst (fbuf_mmap 5000 (open0 (replicate 6000 0))) = Some (- 3) \<and>
   fst (fbuf_mmap 6000 (open0 (replicate 6000 0))) = Some (- 2) \<and>
   mapoff (fst (snd (fbuf_mmap 5000 (open0 (replicate 6000 0))))) = 4096 \<and>
   maplen (fst (snd (fbuf_mmap 5000 (open0 (replicate 6000 0))))) = 1904"
proof -
  have ps: "0 < pagesize (fst (open0 (replicate 6000 0)))"
    by (simp add: open0_def fbuf_init_def int32_def)
  have a: "fst (fbuf_mmap 5000 (open0 (replicate 6000 0))) = Some (- 3)"
    by (simp add: open0_def sys0_def fbuf_init_def int32_def fbuf_mmap_def sys_mmap_def
        mmap_denied_def c_div_def Let_def)
  show ?thesis
    using ensure_window_spec [OF ps, of 5000] ensure_window_spec [OF ps, of 6000] a ps
    by (simp add: open0_def sys0_def fbuf_init_def int32_def)
qed

text \<open>
  Claim C5. A call of \<^verbatim>\<open>fbuf_mmap\<close> that makes a mapping call was given a position
  outside \<open>[mapoff, mapoff + maplen)\<close>. For a position inside the window, \<^verbatim>\<open>fbuf_mmap\<close>,
  \<^verbatim>\<open>fbuf_ptr\<close> and \<^verbatim>\<open>fbuf_read\<close> leave the buffer and the system as they were, and
  \<^verbatim>\<open>fbuf_at\<close> leaves the buffer (so \<open>mapoff\<close> and \<open>maplen\<close>) and the number of mapping
  calls as they were.
\<close>

theorem no_remap_inside_window:
  "(mmap_calls (snd (snd (fbuf_mmap pos st))) \<noteq> mmap_calls (snd st) \<longrightarrow>
      pos < mapoff (fst st) \<or> mapoff (fst st) + maplen (fst st) \<le> pos) \<and>
   (mapoff (fst st) \<le> pos \<and> pos < mapoff (fst st) + maplen (fst st) \<longrightarrow>
      snd (fbuf_mmap pos st) = st \<and>
      fst (snd (fbuf_at pos st)) = fst st \<and>
      mmap_calls (snd (snd (fbuf_at pos st))) = mmap_calls (snd st) \<and>
      snd (fbuf_ptr pos st) = st \<and>
      snd (fbuf_read pos pbuf len st) = st)"
proof -
  have a: "mmap_calls (snd (snd (fbuf_mmap pos st))) \<noteq> mmap_calls (snd st) \<longrightarrow>
      pos < mapoff (fst st) \<or> mapoff (fst st) + maplen (fst st) \<le> pos"
    by (auto simp: fbuf_mmap_def Let_def)
  have b: "snd (fbuf_mmap pos st) = st \<and>
      fst (snd (fbuf_at pos st)) = fst st \<and>
      mmap_calls (snd (snd (fbuf_at pos st))) = mmap_calls (snd st) \<and>
      snd (fbuf_ptr pos st) = st \<and>
      snd (fbuf_read pos pbuf len st) = st"
    if w: "mapoff (fst st) \<le> pos" "pos < mapoff (fst st) + maplen (fst st)"
  proof -
    note m = fbuf_mmap_in_window [OF w]
    have 1: "snd (fbuf_mmap pos st) = st" by (simp add: m)
    have 2: "fst (snd (fbuf_at pos st)) = fst st"
      "mmap_calls (snd (snd (fbuf_at pos st))) = mmap_calls (snd st)"
      by (simp_all add: fbuf_at_def m split: option.splits)
    have 3: "snd (fbuf_ptr pos st) = st"
      by (simp add: fbuf_ptr_def m Let_def)
    have 4: "snd (fbuf_read pos pbuf len st) = st"
      by (simp add: fbuf_read_def m Let_def split: option.splits)
    from 1 2 3 4 show ?thesis by simp
  qed
  from a b show ?thesis by blast
qed

text \<open>A buffer over 6000 bytes after an access at position 5000 has set its window.\<close>

definition st5 :: state where
  "st5 = snd (fbuf_mmap 5000 (open0 (replicate 6000 0)))"

lemma st5_eq:
  "st5 = (\<lparr>fd = O_RDONLY, fsize = 6000, pagecount = 8, pagesize = 4096, mapsize = 32768,
           mapoff = 4096, maplen = 1904, pbyte = MAP_FAILED\<rparr>,
          \<lparr>file_bytes = replicate 6000 0, mmap_ok = (\<lambda>_. True), mmap_calls = 1, munmap_calls = 0,
           examined = []\<rparr>)"
  by (simp add: st5_def open0_def sys0_def fbuf_init_def int32_def fbuf_mmap_def sys_mmap_def
      mmap_denied_def c_div_def Let_def)

theorem no_remap_inside_window_witness:
  "mapoff (fst st5) \<le> 5500 \<and> 5500 < mapoff (fst st5) + maplen (fst st5) \<and>
   snd (fbuf_mmap 5500 st5) = st5 \<and>
   fst (snd (fbuf_at 5500 st5)) = fst st5 \<and>
   mmap_calls (snd (snd (fbuf_at 5500 st5))) = 1 \<and>
   snd (fbuf_ptr 5500 st5) = st5 \<and>
   snd (fbuf_read 5500 (Some []) 10000 st5) = st5 \<and>
   mmap_calls (snd (snd (fbuf_mmap 100 st5))) = 2"
proof -
  have w: "mapoff (fst st5) \<le> 5500 \<and> 5500 < mapoff (fst st5) + maplen (fst st5)"
    by (simp add: st5_eq)
  have c: "mmap_calls (snd st5) = 1" by (simp add: st5_eq)
  have r: "mmap_calls (snd (snd (fbuf_mmap 100 st5))) = 2"
    by (simp add: st5_eq fbuf_mmap_def sys_mmap_def sys_munmap_def mmap_denied_def c_div_def
        Let_def)
  show ?thesis
    using no_remap_inside_window [of 5500 st5 "Some []" 10000] w c r by simp
qed

subsection \<open>A failed mapping\<close>

text \<open>The buffer over two bytes after a first access whose mapping call fails.\<close>

definition st_failed :: state where
  "st_failed = snd (fbuf_mmap 1 (open_nomap [97, 98]))"

text \<open>
  Claim C1. On a system whose mapping call fails, \<^verbatim>\<open>fbuf_mmap\<close> returns -3 and leaves
  \<open>pbyte = MAP_FAILED\<close> with \<open>mapoff\<close> and \<open>maplen\<close> describing the window that could
  not be mapped: the buffer is not in its unmapped state (\<open>pbyte = NULL\<close>, \<open>maplen = 0\<close>).
  The next \<^verbatim>\<open>fbuf_mmap\<close> at a position of that window returns 0 without mapping
  anything, and \<^verbatim>\<open>fbuf_at\<close> there reads through \<^verbatim>\<open>MAP_FAILED\<close> and faults.
\<close>

theorem failed_map_leaves_window:
  "fst (fbuf_mmap 1 (open_nomap [97, 98])) = Some (- 3) \<and>
   pbyte (fst st_failed) = MAP_FAILED \<and>
   mapoff (fst st_failed) = 0 \<and> maplen (fst st_failed) = 2 \<and>
   fbuf_mmap 0 st_failed = (Some 0, st_failed) \<and>
   fst (fbuf_at 0 st_failed) = None"
  by (simp add: st_failed_def open_nomap_def sys_nomap_def fbuf_init_def int32_def fbuf_mmap_def
      sys_mmap_def mmap_denied_def c_div_def Let_def fbuf_at_def deref_def)

section \<open>Scanning with an empty delimiter set\<close>

text \<open>
  Claim C10. With a null delimiter buffer or a length that is not positive, each of the six
  scanners that take a delimiter set returns \<open>pos\<close> and leaves the buffer and the system
  unchanged, for every position and limit: no mapping call is made and no byte is fetched
  (\<open>examined\<close> is part of the unchanged system state).
\<close>

theorem empty_set_returns_start:
  assumes "vpat = None \<or> patlen \<le> 0"
  shows "fbuf_skip_to pos skiplimit vpat patlen st = (Some pos, st) \<and>
         fbuf_rskip_to pos skiplimit vpat patlen st = (Some pos, st) \<and>
         fbuf_skip_over pos skiplimit vpat patlen st = (Some pos, st) \<and>
         fbuf_rskip_over pos skiplimit vpat patlen st = (Some pos, st) \<and>
         fbuf_skip_quote_to pos skiplimit vpat patlen st = (Some pos, st) \<and>
         fbuf_skip_esc_to pos skiplimit vpat patlen st = (Some pos, st)"
  using assms
  by (auto simp: fbuf_skip_to_def fbuf_rskip_to_def fbuf_skip_over_def fbuf_rskip_over_def
      fbuf_skip_quote_to_def fbuf_skip_esc_to_def split: option.splits)

theorem empty_set_returns_start_witness:
  "fbuf_skip_to 1 (- 1) None 3 (open0 [97, 44]) = (Some 1, open0 [97, 44]) \<and>
   fbuf_rskip_to 1 (- 1) (Some [44]) 0 (open0 [97, 44]) = (Some 1, open0 [97, 44]) \<and>
   examined (snd (snd (fbuf_skip_esc_to 7 2 (Some []) 0 (open0 [97, 44])))) = []"
  using empty_set_returns_start [of None 3 1 "- 1" "open0 [97, 44]"]
    empty_set_returns_start [of "Some [44]" 0 1 "- 1" "open0 [97, 44]"]
    empty_set_returns_start [of "Some []" 0 7 2 "open0 [97, 44]"]
  by (simp add: open0_def sys0_def)

section \<open>Invariants of the window\<close>

text \<open>
  Every scanner changes the state only through \<^verbatim>\<open>fbuf_at\<close>, so a property of states that
  \<^verbatim>\<open>fbuf_at\<close> keeps is kept by every loop.
\<close>

lemma skip_to_loop_keeps:
  assumes at: "\<And>p st. P st \<Longrightarrow> P (snd (fbuf_at p st))"
  shows "P st \<Longrightarrow> P (snd (skip_to_loop pat patlen pos n i st))"
proof (induction pat patlen pos n i st rule: skip_to_loop.induct)
  case (1 pat patlen pos n i st)
  obtain r st' where a: "fbuf_at (pos + i) st = (r, st')" by (cases "fbuf_at (pos + i) st")
  from at [OF "1.prems", of "pos + i"] a have p': "P st'" by simp
  show ?case
    using "1.prems" "1.IH" [OF _ a [symmetric]] p' a
    by (subst skip_to_loop.simps) (auto split: option.splits)
qed

lemma skip_over_loop_keeps:
  assumes at: "\<And>p st. P st \<Longrightarrow> P (snd (fbuf_at p st))"
  shows "P st \<Longrightarrow> P (snd (skip_over_loop pat patlen pos n i st))"
proof (induction pat patlen pos n i st rule: skip_over_loop.induct)
  case (1 pat patlen pos n i st)
  obtain r st' where a: "fbuf_at (pos + i) st = (r, st')" by (cases "fbuf_at (pos + i) st")
  from at [OF "1.prems", of "pos + i"] a have p': "P st'" by simp
  show ?case
    using "1.prems" "1.IH" [OF _ a [symmetric]] p' a
    by (subst skip_over_loop.simps) (auto split: option.splits)
qed

lemma rskip_to_loop_keeps:
  assumes at: "\<And>p st. P st \<Longrightarrow> P (snd (fbuf_at p st))"
  shows "P st \<Longrightarrow> P (snd (rskip_to_loop pat patlen skiplimit pos i st))"
proof (induction pat patlen skiplimit pos i st rule: rskip_to_loop.induct)
  case (1 pat patlen skiplimit pos i st)
  obtain r st' where a: "fbuf_at (pos - i) st = (r, st')" by (cases "fbuf_at (pos - i) st")
  from at [OF "1.prems", of "pos - i"] a have p': "P st'" by simp
  show ?case
    using "1.prems" "1.IH" [OF _ _ a [symmetric]] p' a
    by (subst rskip_to_loop.simps) (auto split: option.splits)
qed

lemma rskip_over_loop_keeps:
  assumes at: "\<And>p st. P st \<Longrightarrow> P (snd (fbuf_at p st))"
  shows "P st \<Longrightarrow> P (snd (rskip_over_loop pat patlen skiplimit pos i st))"
proof (induction pat patlen skiplimit pos i st rule: rskip_over_loop.induct)
  case (1 pat patlen skiplimit pos i st)
  obtain r st' where a: "fbuf_at (pos - i) st = (r, st')" by (cases "fbuf_at (pos - i) st")
  from at [OF "1.prems", of "pos - i"] a have p': "P st'" by simp
  show ?case
    using "1.prems" "1.IH" [OF _ _ a [symmetric]] p' a
    by (subst rskip_over_loop.simps) (auto split: option.splits)
qed

lemma skip_esc_loop_keeps:
  assumes at: "\<And>p st. P st \<Longrightarrow> P (snd (fbuf_at p st))"
  shows "P st \<Longrightarrow> P (snd (skip_esc_loop pat patlen pos n i st))"
proof (induction pat patlen pos n i st rule: skip_esc_loop.induct)
  case (1 pat patlen pos n i st)
  obtain r st' where a: "fbuf_at (pos + i) st = (r, st')" by (cases "fbuf_at (pos + i) st")
  from at [OF "1.prems", of "pos + i"] a have p': "P st'" by simp
  show ?case
    using "1.prems" "1.IH" (1) [OF _ a [symmetric]] "1.IH" (2) [OF _ a [symmetric]] p' a
    by (subst skip_esc_loop.simps) (auto split: option.splits)
qed

lemma quoted_loop_keeps:
  assumes at: "\<And>p st. P st \<Longrightarrow> P (snd (fbuf_at p st))"
  shows "P st \<Longrightarrow> P (snd (quoted_loop quote pos skiplimit fsz i st))"
proof (induction quote pos skiplimit fsz i st rule: quoted_loop.induct)
  case (1 quote pos skiplimit fsz i st)
  obtain r st' where a: "fbuf_at (pos + i) st = (r, st')" by (cases "fbuf_at (pos + i) st")
  from at [OF "1.prems", of "pos + i"] a have p': "P st'" by simp
  show ?case
    using "1.prems" "1.IH" (1) [OF _ a [symmetric]] "1.IH" (2) [OF _ a [symmetric]] p' a
    by (subst quoted_loop.simps) (auto split: option.splits)
qed

lemma fbuf_quotedstrlen_keeps:
  assumes at: "\<And>p st. P st \<Longrightarrow> P (snd (fbuf_at p st))"
  shows "P st \<Longrightarrow> P (snd (fbuf_quotedstrlen pos skiplimit st))"
proof -
  assume p: "P st"
  obtain r st' where a: "fbuf_at pos st = (r, st')" by (cases "fbuf_at pos st")
  from at [OF p, of pos] a have p': "P st'" by simp
  from quoted_loop_keeps [of P, OF at p'] p p' a show ?thesis
    by (auto simp: fbuf_quotedstrlen_def Let_def split: option.splits)
qed

lemma skip_quote_loop_keeps:
  assumes at: "\<And>p st. P st \<Longrightarrow> P (snd (fbuf_at p st))"
  shows "P st \<Longrightarrow> P (snd (skip_quote_loop pat patlen pos n i st))"
proof (induction pat patlen pos n i st rule: skip_quote_loop.induct)
  case (1 pat patlen pos n i st)
  obtain r st' where a: "fbuf_at (pos + i) st = (r, st')" by (cases "fbuf_at (pos + i) st")
  from at [OF "1.prems", of "pos + i"] a have p': "P st'" by simp
  obtain q st'' where b: "fbuf_quotedstrlen (pos + i) (int32 (n - i)) st' = (q, st'')"
    by (cases "fbuf_quotedstrlen (pos + i) (int32 (n - i)) st'")
  from fbuf_quotedstrlen_keeps [of P, OF at p', of "pos + i" "int32 (n - i)"] b
  have p'': "P st''" by simp
  show ?case
    using "1.prems" "1.IH" (1) [OF _ a [symmetric]] "1.IH" (2) [OF _ a [symmetric] _ _ _ _ _ b [symmetric]]
      "1.IH" (3) [OF _ a [symmetric]] p' p'' a b
    by (subst skip_quote_loop.simps) (auto split: option.splits)
qed

subsection \<open>Reachable states\<close>

text \<open>The accesses a caller can make on an open buffer.\<close>

datatype access =
    Ensure int
  | At int
  | Ptr int
  | Read int "byte list option" int
  | SkipTo int int "byte list option" int
  | RSkipTo int int "byte list option" int
  | SkipOver int int "byte list option" int
  | RSkipOver int int "byte list option" int
  | SkipQuoteTo int int "byte list option" int
  | SkipEscTo int int "byte list option" int

fun perform :: "access \<Rightarrow> state \<Rightarrow> state" where
  "perform (Ensure pos) st = snd (fbuf_mmap pos st)"
| "perform (At pos) st = snd (fbuf_at pos st)"
| "perform (Ptr pos) st = snd (fbuf_ptr pos st)"
| "perform (Read pos pbuf len) st = snd (fbuf_read pos pbuf len st)"
| "perform (SkipTo pos skiplimit vpat patlen) st = snd (fbuf_skip_to pos skiplimit vpat patlen st)"
| "perform (RSkipTo pos skiplimit vpat patlen) st = snd (fbuf_rskip_to pos skiplimit vpat patlen st)"
| "perform (SkipOver pos skiplimit vpat patlen) st = snd (fbuf_skip_over pos skiplimit vpat patlen st)"
| "perform (RSkipOver pos skiplimit vpat patlen) st = snd (fbuf_rskip_over pos skiplimit vpat patlen st)"
| "perform (SkipQuoteTo pos skiplimit vpat patlen) st =
     snd (fbuf_skip_quote_to pos skiplimit vpat patlen st)"
| "perform (SkipEscTo pos skiplimit vpat patlen) st = snd (fbuf_skip_esc_to pos skiplimit vpat patlen st)"

text \<open>
  The states of a buffer: the one \<^verbatim>\<open>fbuf_init\<close> returns, on any system, and the ones any
  sequence of accesses leads to, whatever the mapping calls answer.
\<close>

inductive reachable :: "state \<Rightarrow> bool" where
  opened: "fbuf_init open_ok alloc_ok sc_page_size pagecnt s = Some fbf \<Longrightarrow> reachable (fbf, s)"
| accessed: "reachable st \<Longrightarrow> reachable (perform a st)"

definition window_inv :: "state \<Rightarrow> bool" where
  "window_inv st =
     (512 \<le> pagesize (fst st) \<and> mapoff (fst st) mod pagesize (fst st) = 0 \<and>
      mapoff (fst st) + maplen (fst st) \<le> fsize (fst st))"

lemma fbuf_init_window_inv:
  "fbuf_init open_ok alloc_ok sc_page_size pagecnt s = Some fbf \<Longrightarrow> window_inv (fbf, s)"
  by (auto simp: fbuf_init_def window_inv_def Let_def split: if_splits)

lemma fbuf_mmap_window_inv: "window_inv st \<Longrightarrow> window_inv (snd (fbuf_mmap pos st))"
  by (auto simp: fbuf_mmap_def window_inv_def Let_def sys_mmap_def)

lemma fbuf_at_window_inv: "window_inv st \<Longrightarrow> window_inv (snd (fbuf_at pos st))"
  using fbuf_mmap_window_inv [of st pos]
  by (auto simp: fbuf_at_def window_inv_def split: prod.splits option.splits)

lemma fbuf_ptr_window_inv: "window_inv st \<Longrightarrow> window_inv (snd (fbuf_ptr pos st))"
  using fbuf_mmap_window_inv [of st pos]
  by (auto simp: fbuf_ptr_def Let_def split: prod.splits option.splits)

lemma fbuf_read_window_inv: "window_inv st \<Longrightarrow> window_inv (snd (fbuf_read pos g len st))"
  using fbuf_mmap_window_inv [of st pos]
  by (auto simp: fbuf_read_def Let_def split: prod.splits option.splits)

lemma perform_window_inv: "window_inv st \<Longrightarrow> window_inv (perform a st)"
proof (cases a)
  case (SkipTo pos skiplimit vpat patlen)
  assume "window_inv st"
  then show ?thesis
    using skip_to_loop_keeps [of window_inv, OF fbuf_at_window_inv]
    by (simp add: SkipTo fbuf_skip_to_def split: option.splits)
next
  case (RSkipTo pos skiplimit vpat patlen)
  assume "window_inv st"
  then show ?thesis
    using rskip_to_loop_keeps [of window_inv, OF fbuf_at_window_inv]
    by (simp add: RSkipTo fbuf_rskip_to_def Let_def split: option.splits)
next
  case (SkipOver pos skiplimit vpat patlen)
  assume "window_inv st"
  then show ?thesis
    using skip_over_loop_keeps [of window_inv, OF fbuf_at_window_inv]
    by (simp add: SkipOver fbuf_skip_over_def split: option.splits)
next
  case (RSkipOver pos skiplimit vpat patlen)
  assume "window_inv st"
  then show ?thesis
    using rskip_over_loop_keeps [of window_inv, OF fbuf_at_window_inv]
    by (simp add: RSkipOver fbuf_rskip_over_def Let_def split: option.splits)
next
  case (SkipQuoteTo pos skiplimit vpat patlen)
  assume "window_inv st"
  then show ?thesis
    using skip_quote_loop_keeps [of window_inv, OF fbuf_at_window_inv]
    by (simp add: SkipQuoteTo fbuf_skip_quote_to_def split: option.splits)
next
  case (SkipEscTo pos skiplimit vpat patlen)
  assume "window_inv st"
  then show ?thesis
    using skip_esc_loop_keeps [of window_inv, OF fbuf_at_window_inv]
    by (simp add: SkipEscTo fbuf_skip_esc_to_def split: option.splits)
qed (simp_all add: fbuf_mmap_window_inv fbuf_at_window_inv fbuf_ptr_window_inv fbuf_read_window_inv)

lemma reachable_window_inv: "reachable st \<Longrightarrow> window_inv st"
  by (induction rule: reachable.induct) (simp_all add: fbuf_init_window_inv perform_window_inv)

text \<open>
  Claim C6. In every state reachable from \<^verbatim>\<open>fbuf_init\<close> by any sequence of accesses,
  \<open>mapoff\<close> is a multiple of \<open>pagesize\<close> and \<open>mapoff + maplen \<le> fsize\<close>.
\<close>

theorem reachable_window_aligned:
  assumes "reachable st"
  shows "mapoff (fst st) mod pagesize (fst st) = 0 \<and>
         mapoff (fst st) + maplen (fst st) \<le> fsize (fst st)"
  using reachable_window_inv [OF assms] by (simp add: window_inv_def)

theorem reachable_window_aligned_witness:
  "reachable (perform (At 5000) (open0 (replicate 6000 0))) \<and>
   mapoff (fst (perform (At 5000) (open0 (replicate 6000 0)))) = 4096 \<and>
   pagesize (fst (perform (At 5000) (open0 (replicate 6000 0)))) = 4096 \<and>
   mapoff (fst (perform (At 5000) (open0 (replicate 6000 0)))) mod
     pagesize (fst (perform (At 5000) (open0 (replicate 6000 0)))) = 0 \<and>
   mapoff (fst (perform (At 5000) (open0 (replicate 6000 0)))) +
     maplen (fst (perform (At 5000) (open0 (replicate 6000 0)))) \<le>
     fsize (fst (perform (At 5000) (open0 (replicate 6000 0))))"
proof -
  have "fbuf_init True True 4096 8 (sys0 (replicate 6000 0)) =
      Some (the (fbuf_init True True 4096 8 (sys0 (replicate 6000 0))))"
    by (simp add: fbuf_init_def Let_def)
  then have "reachable (open0 (replicate 6000 0))"
    unfolding open0_def by (rule reachable.opened)
  then have r: "reachable (perform (At 5000) (open0 (replicate 6000 0)))"
    by (rule reachable.accessed)
  have e: "mapoff (fst (perform (At 5000) (open0 (replicate 6000 0)))) = 4096 \<and>
     pagesize (fst (perform (At 5000) (open0 (replicate 6000 0)))) = 4096"
    by (simp add: open0_def sys0_def fbuf_init_def int32_def fbuf_at_def fbuf_mmap_def sys_mmap_def
        mmap_denied_def c_div_def Let_def deref_def)
  from reachable_window_aligned [OF r] r e show ?thesis by simp
qed

section \<open>No window is ever mapped\<close>

text \<open>
  \<^verbatim>\<open>fbuf_init\<close> opens the file \<^verbatim>\<open>O_RDONLY\<close> and \<^verbatim>\<open>fbuf_mmap\<close> asks for a shared mapping
  with \<^verbatim>\<open>PROT_WRITE\<close>: the access check denies every mapping call of an opened buffer,
  whatever the system has the means to grant.
\<close>

lemma mmap_denied_rdonly: "mmap_denied [PROT_READ, PROT_WRITE] MAP_SHARED O_RDONLY"
  by (simp add: mmap_denied_def)

lemma sys_mmap_rdonly:
  "fst (sys_mmap len [PROT_READ, PROT_WRITE] MAP_SHARED O_RDONLY off s) = MAP_FAILED"
  by (simp add: sys_mmap_def mmap_denied_rdonly)

text \<open>The descriptor is read-only and \<open>pbyte\<close> is \<^verbatim>\<open>NULL\<close> or \<^verbatim>\<open>MAP_FAILED\<close>.\<close>

definition unmapped :: "state \<Rightarrow> bool" where
  "unmapped st =
     (fd (fst st) = O_RDONLY \<and> (pbyte (fst st) = NULL \<or> pbyte (fst st) = MAP_FAILED))"

lemma fbuf_init_unmapped:
  "fbuf_init open_ok alloc_ok sc_page_size pagecnt s = Some fbf \<Longrightarrow> unmapped (fbf, s)"
  by (auto simp: fbuf_init_def unmapped_def Let_def split: if_splits)

lemma fbuf_mmap_unmapped: "unmapped st \<Longrightarrow> unmapped (snd (fbuf_mmap pos st))"
  by (auto simp: fbuf_mmap_def unmapped_def Let_def sys_mmap_rdonly)

lemma fbuf_at_unmapped: "unmapped st \<Longrightarrow> unmapped (snd (fbuf_at pos st))"
  using fbuf_mmap_unmapped [of st pos]
  by (auto simp: fbuf_at_def unmapped_def split: prod.splits option.splits)

lemma fbuf_ptr_unmapped: "unmapped st \<Longrightarrow> unmapped (snd (fbuf_ptr pos st))"
  using fbuf_mmap_unmapped [of st pos]
  by (auto simp: fbuf_ptr_def Let_def split: prod.splits option.splits)

lemma fbuf_read_unmapped: "unmapped st \<Longrightarrow> unmapped (snd (fbuf_read pos pbuf len st))"
  using fbuf_mmap_unmapped [of st pos]
  by (auto simp: fbuf_read_def Let_def split: prod.splits option.splits)

lemma perform_unmapped: "unmapped st \<Longrightarrow> unmapped (perform a st)"
proof (cases a)
  case (SkipTo pos skiplimit vpat patlen)
  assume "unmapped st"
  then show ?thesis
    using skip_to_loop_keeps [of unmapped, OF fbuf_at_unmapped]
    by (simp add: SkipTo fbuf_skip_to_def split: option.splits)
next
  case (RSkipTo pos skiplimit vpat patlen)
  assume "unmapped st"
  then show ?thesis
    using rskip_to_loop_keeps [of unmapped, OF fbuf_at_unmapped]
    by (simp add: RSkipTo fbuf_rskip_to_def Let_def split: option.splits)
next
  case (SkipOver pos skiplimit vpat patlen)
  assume "unmapped st"
  then show ?thesis
    using skip_over_loop_keeps [of unmapped, OF fbuf_at_unmapped]
    by (simp add: SkipOver fbuf_skip_over_def split: option.splits)
next
  case (RSkipOver pos skiplimit vpat patlen)
  assume "unmapped st"
  then show ?thesis
    using rskip_over_loop_keeps [of unmapped, OF fbuf_at_unmapped]
    by (simp add: RSkipOver fbuf_rskip_over_def Let_def split: option.splits)
next
  case (SkipQuoteTo pos skiplimit vpat patlen)
  assume "unmapped st"
  then show ?thesis
    using skip_quote_loop_keeps [of unmapped, OF fbuf_at_unmapped]
    by (simp add: SkipQuoteTo fbuf_skip_quote_to_def split: option.splits)
next
  case (SkipEscTo pos skiplimit vpat patlen)
  assume "unmapped st"
  then show ?thesis
    using skip_esc_loop_keeps [of unmapped, OF fbuf_at_unmapped]
    by (simp add: SkipEscTo fbuf_skip_esc_to_def split: option.splits)
qed (simp_all add: fbuf_mmap_unmapped fbuf_at_unmapped fbuf_ptr_unmapped fbuf_read_unmapped)

lemma reachable_unmapped: "reachable st \<Longrightarrow> unmapped st"
  by (induction rule: reachable.induct) (simp_all add: fbuf_init_unmapped perform_unmapped)

lemma unmapped_at:
  assumes "unmapped st"
  shows "fst (fbuf_at pos st) = None \<or> fst (fbuf_at pos st) = Some (- 2)"
proof -
  from fbuf_mmap_unmapped [OF assms, of pos]
  have "deref (pbyte (fst (snd (fbuf_mmap pos st)))) k = None" for k
    by (auto simp: unmapped_def deref_def)
  then show ?thesis
    by (auto simp: fbuf_at_def split: prod.splits option.splits)
qed

text \<open>
  In every state reachable from \<^verbatim>\<open>fbuf_init\<close> by any sequence of accesses, whatever the
  system has the means to grant, no mapping is live, and \<^verbatim>\<open>fbuf_at\<close> returns no byte of
  the file at any position: it returns -2 or faults.
\<close>

theorem reachable_never_reads:
  assumes "reachable st"
  shows "(pbyte (fst st) = NULL \<or> pbyte (fst st) = MAP_FAILED) \<and>
         (fst (fbuf_at pos st) = None \<or> fst (fbuf_at pos st) = Some (- 2)) \<and>
         examined (snd (snd (fbuf_at pos st))) = examined (snd st)"
proof -
  from reachable_unmapped [OF assms] have u: "unmapped st" .
  from fbuf_mmap_unmapped [OF u, of pos]
  have d: "deref (pbyte (fst (snd (fbuf_mmap pos st)))) k = None" for k
    by (auto simp: unmapped_def deref_def)
  have m: "examined (snd (snd (fbuf_mmap pos st))) = examined (snd st)"
    by (simp add: fbuf_mmap_def Let_def sys_mmap_def sys_munmap_def)
  have e: "examined (snd (snd (fbuf_at pos st))) = examined (snd st)"
    using d m by (auto simp: fbuf_at_def split: prod.splits option.splits)
  from u unmapped_at [OF u, of pos] e show ?thesis by (simp add: unmapped_def)
qed

theorem reachable_never_reads_witness:
  "reachable (open0 [97, 98, 44]) \<and>
   pbyte (fst (open0 [97, 98, 44])) = NULL \<and>
   fst (fbuf_at 1 (open0 [97, 98, 44])) = Some (- 2) \<and>
   examined (snd (snd (fbuf_at 1 (open0 [97, 98, 44])))) = []"
proof -
  have "fbuf_init True True 4096 8 (sys0 [97, 98, 44]) =
      Some (the (fbuf_init True True 4096 8 (sys0 [97, 98, 44])))"
    by (simp add: fbuf_init_def Let_def)
  then have r: "reachable (open0 [97, 98, 44])"
    unfolding open0_def by (rule reachable.opened)
  have e: "pbyte (fst (open0 [97, 98, 44])) = NULL"
    "fst (fbuf_at 1 (open0 [97, 98, 44])) = Some (- 2)"
    "examined (snd (open0 [97, 98, 44])) = []"
    by (simp_all add: open0_def sys0_def fbuf_init_def int32_def fbuf_at_def fbuf_mmap_def
        sys_mmap_def mmap_denied_def c_div_def Let_def)
  from reachable_never_reads [OF r, of 1] r e show ?thesis by simp
qed

section \<open>What the accessors and scanners return on an opened buffer\<close>

text \<open>
  On the buffer \<^verbatim>\<open>fbuf_init\<close> returns, \<^verbatim>\<open>fbuf_mmap\<close> fails at every position, with -2
  out of range and -3 in range, and \<^verbatim>\<open>fbuf_at\<close> returns -2 without fetching a byte.
\<close>

lemma opened_mmap:
  assumes "fbuf_init open_ok alloc_ok sc_page_size pagecnt s = Some fbf"
  shows "fst (fbuf_mmap pos (fbf, s)) = Some (if pos < 0 \<or> fsize fbf \<le> pos then - 2 else - 3)"
proof -
  from assms have f: "fd fbf = O_RDONLY" "mapoff fbf = 0" "maplen fbf = 0" "pagesize fbf \<noteq> 0"
    by (auto simp: fbuf_init_def Let_def split: if_splits)
  show ?thesis
    by (simp add: fbuf_mmap_def Let_def f sys_mmap_rdonly)
qed

lemma opened_at:
  assumes "fbuf_init open_ok alloc_ok sc_page_size pagecnt s = Some fbf"
  shows "fbuf_at pos (fbf, s) = (Some (- 2), snd (fbuf_at pos (fbf, s)))"
    and "examined (snd (snd (fbuf_at pos (fbf, s)))) = examined s"
proof -
  obtain r st' where m: "fbuf_mmap pos (fbf, s) = (r, st')" by (cases "fbuf_mmap pos (fbf, s)")
  with opened_mmap [OF assms, of pos]
  have r: "r = Some (if pos < 0 \<or> fsize fbf \<le> pos then - 2 else - 3)" by simp
  have "examined (snd (snd (fbuf_mmap pos (fbf, s)))) = examined s"
    by (simp add: fbuf_mmap_def Let_def sys_mmap_def sys_munmap_def)
  with m have e: "examined (snd st') = examined s" by simp
  show "fbuf_at pos (fbf, s) = (Some (- 2), snd (fbuf_at pos (fbf, s)))"
    by (simp add: fbuf_at_def m r)
  show "examined (snd (snd (fbuf_at pos (fbf, s)))) = examined s"
    using e by (simp add: fbuf_at_def m r)
qed


lemma open0_init: "fbuf_init True True 4096 8 (sys0 bs) = Some (fst (open0 bs))"
  by (simp add: open0_def fbuf_init_def Let_def)

lemma open0_pair: "open0 bs = (fst (open0 bs), sys0 bs)"
  by (simp add: open0_def)

text \<open>
  Claim C9. The claim has the bulk read return \<open>min len (maplen - (pos - mapoff))\<close> bytes
  at every valid position, never an error. On the buffer \<^verbatim>\<open>fbuf_init\<close> returns,
  \<^verbatim>\<open>fbuf_read\<close> returns an error at every position and for every length and copies
  nothing: -1 for a null destination or a length that is not positive, -2 otherwise,
  because the mapping call is denied. Reading 10 bytes at position 5000 of a file of
  6000 bytes returns -2.
\<close>

theorem fbuf_read_opened:
  assumes "fbuf_init open_ok alloc_ok sc_page_size pagecnt s = Some fbf"
  shows "fst (fbuf_read pos pbuf len (fbf, s)) =
           Some (if pbuf = None \<or> len \<le> 0 then - 1 else - 2, [])"
proof -
  obtain r st' where m: "fbuf_mmap pos (fbf, s) = (r, st')" by (cases "fbuf_mmap pos (fbf, s)")
  with opened_mmap [OF assms, of pos]
  have r: "r = Some (if pos < 0 \<or> fsize fbf \<le> pos then - 2 else - 3)" by simp
  show ?thesis by (simp add: fbuf_read_def m r)
qed

theorem fbuf_read_opened_witness:
  "fbuf_init True True 4096 8 (sys0 (replicate 6000 7)) = Some (fst (open0 (replicate 6000 7))) \<and>
   fst (fbuf_read 5000 (Some []) 10 (open0 (replicate 6000 7))) = Some (- 2, []) \<and>
   fsize (fst (open0 (replicate 6000 7))) = 6000"
proof -
  have "fst (fbuf_read 5000 (Some []) 10 (fst (open0 (replicate 6000 7)), sys0 (replicate 6000 7))) =
      Some (- 2, [])"
    using fbuf_read_opened [OF open0_init, of 5000 "Some []" 10 "replicate 6000 7"] by simp
  moreover have "fsize (fst (open0 (replicate 6000 7))) = 6000"
    by (simp add: open0_def sys0_def fbuf_init_def Let_def)
  ultimately show ?thesis
    using open0_init [of "replicate 6000 7"] open0_pair [of "replicate 6000 7"] by simp
qed

text \<open>
  Claim C4. The claim has the scan return the first position holding a delimiter, 2 over
  \<open>ab,cd\<close> from 0 with the set of the comma. On the buffer \<^verbatim>\<open>fbuf_init\<close> returns,
  \<^verbatim>\<open>fbuf_skip_to\<close> returns \<open>pos\<close> for every position, limit and delimiter buffer, and
  fetches no byte: the first \<^verbatim>\<open>fbuf_at\<close> returns -2 because the mapping call is denied,
  and the loop breaks. Over \<open>ab,cd\<close> it returns 0.
\<close>

theorem fbuf_skip_to_opened:
  assumes "fbuf_init open_ok alloc_ok sc_page_size pagecnt s = Some fbf"
  shows "fst (fbuf_skip_to pos skiplimit vpat patlen (fbf, s)) = Some pos \<and>
         examined (snd (snd (fbuf_skip_to pos skiplimit vpat patlen (fbf, s)))) = examined s"
proof -
  from opened_at [OF assms, of pos] obtain st' where
    a: "fbuf_at pos (fbf, s) = (Some (- 2), st')" and e: "examined (snd st') = examined s"
    by blast
  have "skip_to_loop pat patlen pos n 0 (fbf, s) =
      (if 0 < n then (Some pos, st') else (Some pos, (fbf, s)))" for pat n
    by (subst skip_to_loop.simps) (simp add: a)
  with e show ?thesis
    by (simp add: fbuf_skip_to_def split: option.splits)
qed

theorem fbuf_skip_to_opened_witness:
  "fbuf_init True True 4096 8 (sys0 [97, 98, 44, 99, 100]) = Some (fst (open0 [97, 98, 44, 99, 100])) \<and>
   fst (fbuf_skip_to 0 (- 1) (Some [44]) 1 (open0 [97, 98, 44, 99, 100])) = Some 0 \<and>
   examined (snd (snd (fbuf_skip_to 0 (- 1) (Some [44]) 1 (open0 [97, 98, 44, 99, 100])))) = []"
proof -
  have "examined (sys0 [97, 98, 44, 99, 100]) = []" by (simp add: sys0_def)
  then show ?thesis
    using fbuf_skip_to_opened [OF open0_init, of 0 "- 1" "Some [44]" 1 "[97, 98, 44, 99, 100]"]
      open0_init [of "[97, 98, 44, 99, 100]"] open0_pair [of "[97, 98, 44, 99, 100]"]
    by simp
qed

text \<open>
  Claim C8. The claim has the escape-aware scan return the position of the second comma, 4,
  over \<open>a\,b,c\<close>. On the buffer \<^verbatim>\<open>fbuf_init\<close> returns, \<^verbatim>\<open>fbuf_skip_esc_to\<close> returns
  \<open>pos\<close> for every position, limit and delimiter buffer, and fetches no byte, because
  the mapping call is denied. Over \<open>a\,b,c\<close> it returns 0.
\<close>

theorem fbuf_skip_esc_to_opened:
  assumes "fbuf_init open_ok alloc_ok sc_page_size pagecnt s = Some fbf"
  shows "fst (fbuf_skip_esc_to pos skiplimit vpat patlen (fbf, s)) = Some pos \<and>
         examined (snd (snd (fbuf_skip_esc_to pos skiplimit vpat patlen (fbf, s)))) = examined s"
proof -
  from opened_at [OF assms, of pos] obtain st' where
    a: "fbuf_at pos (fbf, s) = (Some (- 2), st')" and e: "examined (snd st') = examined s"
    by blast
  have "skip_esc_loop pat patlen pos n 0 (fbf, s) =
      (if 0 < n then (Some pos, st') else (Some pos, (fbf, s)))" for pat n
    by (subst skip_esc_loop.simps) (simp add: a)
  with e show ?thesis
    by (simp add: fbuf_skip_esc_to_def split: option.splits)
qed

theorem fbuf_skip_esc_to_opened_witness:
  "fbuf_init True True 4096 8 (sys0 [97, 92, 44, 98, 44, 99]) =
     Some (fst (open0 [97, 92, 44, 98, 44, 99])) \<and>
   fst (fbuf_skip_esc_to 0 (- 1) (Some [44]) 1 (open0 [97, 92, 44, 98, 44, 99])) = Some 0 \<and>
   examined (snd (snd (fbuf_skip_esc_to 0 (- 1) (Some [44]) 1 (open0 [97, 92, 44, 98, 44, 99])))) = []"
proof -
  have "examined (sys0 [97, 92, 44, 98, 44, 99]) = []" by (simp add: sys0_def)
  then show ?thesis
    using fbuf_skip_esc_to_opened [OF open0_init, of 0 "- 1" "Some [44]" 1 "[97, 92, 44, 98, 44, 99]"]
      open0_init [of "[97, 92, 44, 98, 44, 99]"] open0_pair [of "[97, 92, 44, 98, 44, 99]"]
    by simp
qed



text \<open>
  Claim C7. The claim has the quote-aware scan pass a delimiter that lies inside a quoted
  run: over \<open>a"b,c",d\<close> with the set of the comma it would return 6. On the buffer
  \<^verbatim>\<open>fbuf_init\<close> returns, \<^verbatim>\<open>fbuf_skip_quote_to\<close> returns \<open>pos\<close> for every position, limit
  and delimiter buffer, and fetches no byte, because the mapping call is denied. Over
  \<open>a"b,c",d\<close> it returns 0.
\<close>

theorem fbuf_skip_quote_to_opened:
  assumes "fbuf_init open_ok alloc_ok sc_page_size pagecnt s = Some fbf"
  shows "fst (fbuf_skip_quote_to pos skiplimit vpat patlen (fbf, s)) = Some pos \<and>
         examined (snd (snd (fbuf_skip_quote_to pos skiplimit vpat patlen (fbf, s)))) = examined s"
proof -
  from opened_at [OF assms, of pos] obtain st' where
    a: "fbuf_at pos (fbf, s) = (Some (- 2), st')" and e: "examined (snd st') = examined s"
    by blast
  have "skip_quote_loop pat patlen pos n 0 (fbf, s) =
      (if 0 < n then (Some pos, st') else (Some pos, (fbf, s)))" for pat n
    by (subst skip_quote_loop.simps) (simp add: a)
  with e show ?thesis
    by (simp add: fbuf_skip_quote_to_def split: option.splits)
qed

theorem fbuf_skip_quote_to_opened_witness:
  "fbuf_init True True 4096 8 (sys0 [97, 34, 98, 44, 99, 34, 44, 100]) =
     Some (fst (open0 [97, 34, 98, 44, 99, 34, 44, 100])) \<and>
   fst (fbuf_skip_quote_to 0 (- 1) (Some [44]) 1 (open0 [97, 34, 98, 44, 99, 34, 44, 100])) = Some 0 \<and>
   examined (snd (snd (fbuf_skip_quote_to 0 (- 1) (Some [44]) 1
     (open0 [97, 34, 98, 44, 99, 34, 44, 100])))) = []"
proof -
  have "examined (sys0 [97, 34, 98, 44, 99, 34, 44, 100]) = []" by (simp add: sys0_def)
  then show ?thesis
    using fbuf_skip_quote_to_opened [OF open0_init, of 0 "- 1" "Some [44]" 1
        "[97, 34, 98, 44, 99, 34, 44, 100]"]
      open0_init [of "[97, 34, 98, 44, 99, 34, 44, 100]"]
      open0_pair [of "[97, 34, 98, 44, 99, 34, 44, 100]"]
    by simp
qed

end
